theory Spec2Isabelle
  imports Main "HOL-Library.Multiset" "HOL-Library.Sublist" "HOL-Library.Char_ord"
    "HOL-Library.List_Lexorder"
begin

section \<open>Errors and list primitives of the notebook's Python\<close>

text \<open>
  The notebook \<^verbatim>\<open>1.02-vr-ggs-data-preprocessing.ipynb\<close> defines \<^verbatim>\<open>load_data\<close>,
  \<^verbatim>\<open>preprocess_data\<close> and \<^verbatim>\<open>create_meal_labels\<close>. Every place where the Python can
  raise is a branch of the model: results are \<open>error + 'a\<close>, \<open>Inl\<close> carrying the exception.
\<close>

datatype error = IndexError | ValueError

definition and_then :: "error + 'a \<Rightarrow> ('a \<Rightarrow> error + 'b) \<Rightarrow> error + 'b" where
  "and_then r f = (case r of Inl e \<Rightarrow> Inl e | Inr x \<Rightarrow> f x)"

text \<open>\<^verbatim>\<open>s.iloc[i]\<close> for \<open>i\<close> taken from \<^verbatim>\<open>range\<close> (never negative): out of range raises.\<close>

definition iloc :: "'a list \<Rightarrow> nat \<Rightarrow> error + 'a" where
  "iloc xs i = (if i < length xs then Inr (xs ! i) else Inl IndexError)"

text \<open>\<^verbatim>\<open>a[i] = v\<close> on an array, \<open>i\<close> from \<^verbatim>\<open>range\<close>.\<close>

definition setitem :: "'a list \<Rightarrow> nat \<Rightarrow> 'a \<Rightarrow> error + 'a list" where
  "setitem xs i v = (if i < length xs then Inr (xs[i := v]) else Inl IndexError)"

text \<open>\<^verbatim>\<open>xs[-1]\<close> and \<^verbatim>\<open>xs.pop()\<close> of a Python list: both raise on the empty list.\<close>

definition getitem_last :: "'a list \<Rightarrow> error + 'a" where
  "getitem_last xs = (if xs = [] then Inl IndexError else Inr (last xs))"

definition pop :: "'a list \<Rightarrow> error + 'a list" where
  "pop xs = (if xs = [] then Inl IndexError else Inr (butlast xs))"

text \<open>\<^verbatim>\<open>for i in range(n): body\<close>, stopping at the first exception.\<close>

fun for_range :: "(nat \<Rightarrow> 's \<Rightarrow> error + 's) \<Rightarrow> nat list \<Rightarrow> 's \<Rightarrow> error + 's" where
  "for_range body [] s = Inr s"
| "for_range body (i # is) s = and_then (body i s) (for_range body is)"

section \<open>Event rows\<close>

text \<open>
  A row of a patient's table as \<^verbatim>\<open>pd.read_csv\<close> delivers it. \<open>None\<close> is a missing value
  (NaN). The record is polymorphic in the types of the date, of the message type and of
  the numeric cells, because \<^verbatim>\<open>preprocess_data\<close> changes them column by column.
\<close>

record ('d, 'm, 'v) row =
  date :: 'd
  msg_type :: 'm
  affects_fob :: 'v
  affects_iob :: 'v
  others :: "'v list"

type_synonym raw_row = "(string option, string option, int option) row"

section \<open>create_meal_labels\<close>

text \<open>
  The three local variables of the scan. \<^verbatim>\<open>labels\<close> is \<^verbatim>\<open>np.zeros(len(df))\<close>, an array of
  floats that only ever receives values of the integer counter; it is modelled with
  Python's unbounded integers. \<^verbatim>\<open>active_meals\<close> is a Python list used as a stack whose
  top is its last element.
\<close>

record labeler =
  labels :: "int list"
  meal_counter :: int
  active_meals :: "int list"

text \<open>
  \<^verbatim>\<open>if meal_start.iloc[i]: active_meals.append(meal_counter); meal_counter += 1\<close>
\<close>

definition open_meal :: "bool list \<Rightarrow> nat \<Rightarrow> labeler \<Rightarrow> error + labeler" where
  "open_meal meal_start i s =
     and_then (iloc meal_start i) (\<lambda>b.
       if b then Inr (s\<lparr>active_meals := active_meals s @ [meal_counter s],
                        meal_counter := meal_counter s + 1\<rparr>)
       else Inr s)"

text \<open>\<^verbatim>\<open>if len(active_meals) > 0: labels[i] = active_meals[-1]\<close>\<close>

definition write_label :: "nat \<Rightarrow> labeler \<Rightarrow> error + labeler" where
  "write_label i s =
     (if length (active_meals s) > 0 then
        and_then (getitem_last (active_meals s)) (\<lambda>v.
        and_then (setitem (labels s) i v) (\<lambda>ls.
        Inr (s\<lparr>labels := ls\<rparr>)))
      else Inr s)"

text \<open>\<^verbatim>\<open>if meal_end.iloc[i] and len(active_meals) > 0: active_meals.pop()\<close>\<close>

definition close_meal :: "bool list \<Rightarrow> nat \<Rightarrow> labeler \<Rightarrow> error + labeler" where
  "close_meal meal_end i s =
     and_then (iloc meal_end i) (\<lambda>b.
       if b \<and> length (active_meals s) > 0 then
         and_then (pop (active_meals s)) (\<lambda>am. Inr (s\<lparr>active_meals := am\<rparr>))
       else Inr s)"

definition loop_body :: "bool list \<Rightarrow> bool list \<Rightarrow> nat \<Rightarrow> labeler \<Rightarrow> error + labeler" where
  "loop_body meal_start meal_end i s =
     and_then (open_meal meal_start i s) (\<lambda>s1.
     and_then (write_label i s1) (\<lambda>s2.
     close_meal meal_end i s2))"

text \<open>The state before the loop, for a table of \<open>n\<close> rows.\<close>

definition init_labeler :: "nat \<Rightarrow> labeler" where
  "init_labeler n = \<lparr>labels = replicate n 0, meal_counter = 1, active_meals = []\<rparr>"

text \<open>
  The loop over two boolean columns of a table of \<open>n\<close> rows, cut after its first \<open>k\<close>
  iterations; \<open>scan_rows ms me n n\<close> is the whole loop.
\<close>

definition scan_rows :: "bool list \<Rightarrow> bool list \<Rightarrow> nat \<Rightarrow> nat \<Rightarrow> error + labeler" where
  "scan_rows meal_start meal_end n k =
     for_range (loop_body meal_start meal_end) [0..<k] (init_labeler n)"

definition label_flags :: "bool list \<Rightarrow> bool list \<Rightarrow> nat \<Rightarrow> error + int list" where
  "label_flags meal_start meal_end n =
     and_then (scan_rows meal_start meal_end n n) (\<lambda>s. Inr (labels s))"

text \<open>
  \<^verbatim>\<open>meal_start = df['msg_type'] == 'ANNOUNCE_MEAL'\<close> and
  \<^verbatim>\<open>meal_end = df['msg_type'] == 'MEAL_END'\<close>: element-wise comparisons, false on a
  missing value.
\<close>

definition meal_start_of :: "('d, string option, 'v) row list \<Rightarrow> bool list" where
  "meal_start_of df = map (\<lambda>r. msg_type r = Some ''ANNOUNCE_MEAL'') df"

definition meal_end_of :: "('d, string option, 'v) row list \<Rightarrow> bool list" where
  "meal_end_of df = map (\<lambda>r. msg_type r = Some ''MEAL_END'') df"

definition create_meal_labels :: "('d, string option, 'v) row list \<Rightarrow> error + int list" where
  "create_meal_labels df =
     label_flags (meal_start_of df) (meal_end_of df) (length df)"

text \<open>The state in which iteration \<open>i\<close> of the loop starts (the final state for \<open>i = len(df)\<close>).\<close>

definition state_before :: "('d, string option, 'v) row list \<Rightarrow> nat \<Rightarrow> error + labeler" where
  "state_before df i = scan_rows (meal_start_of df) (meal_end_of df) (length df) i"

text \<open>The number of meal-start rows among the rows \<open>0, \<dots>, i - 1\<close>.\<close>

definition starts_before :: "bool list \<Rightarrow> nat \<Rightarrow> nat" where
  "starts_before meal_start i = length (filter id (take i meal_start))"

text \<open>
  The stack discipline: identifiers strictly increase from the bottom of the stack to its
  top, are positive, and lie below the counter.
\<close>

definition stack_ok :: "labeler \<Rightarrow> bool" where
  "stack_ok s \<longleftrightarrow> sorted_wrt (<) (active_meals s) \<and> 1 \<le> meal_counter s \<and>
     (\<forall>x \<in> set (active_meals s). 1 \<le> x \<and> x < meal_counter s)"

definition scan_inv :: "bool list \<Rightarrow> nat \<Rightarrow> nat \<Rightarrow> labeler \<Rightarrow> bool" where
  "scan_inv ms n k s \<longleftrightarrow>
     length (labels s) = n \<and> meal_counter s = 1 + int (starts_before ms k) \<and> stack_ok s \<and>
     (\<forall>j. k \<le> j \<longrightarrow> j < n \<longrightarrow> labels s ! j = 0) \<and>
     (\<forall>j<k. 0 \<le> labels s ! j \<and> labels s ! j \<le> int (starts_before ms (Suc j)))"

text \<open>A row that carries nothing but its message type.\<close>

definition event :: "string \<Rightarrow> raw_row" where
  "event m = \<lparr>date = None, msg_type = Some m, affects_fob = None, affects_iob = None, others = []\<rparr>"

text \<open>Sample tables: two nested meals; a table with an end marker when no meal is open.\<close>

definition nested_meals :: "raw_row list" where
  "nested_meals =
     [event ''ANNOUNCE_MEAL'', event ''ANNOUNCE_MEAL'', event ''MEAL_END'', event ''MEAL_END'']"

definition stray_end :: "raw_row list" where
  "stray_end =
     [event ''ANNOUNCE_MEAL'', event ''MEAL_END'', event ''MEAL_END'', event ''ANNOUNCE_MEAL'',
      event ''DOSE_INSULIN'']"

section \<open>preprocess_data\<close>

text \<open>
  The table handed to \<^verbatim>\<open>preprocess_data\<close>: the columns \<^verbatim>\<open>date\<close>, \<^verbatim>\<open>msg_type\<close>,
  \<^verbatim>\<open>affects_fob\<close> and \<^verbatim>\<open>affects_iob\<close> that the function names, and further numeric
  columns (\<open>other_columns\<close> holds their names, \<open>others\<close> of a row their cells).
\<close>

record raw_frame =
  other_columns :: "string list"
  records :: "raw_row list"

type_synonym clean_row = "(int, string, int) row"

text \<open>The returned table: column labels, the \<^verbatim>\<open>date\<close> index, and the cells row by row.\<close>

record frame =
  columns :: "string list"
  index :: "int list"
  cells :: "int list list"

text \<open>
  \<^verbatim>\<open>df = df.fillna(0)\<close> and \<^verbatim>\<open>df['msg_type'] = df['msg_type'].replace(0, 'NULL')\<close>: every
  missing numeric cell becomes 0; a missing message type becomes 0 and then \<^verbatim>\<open>'NULL'\<close>. A
  missing date becomes 0 as well, which does not match the date format below; it stays
  \<open>None\<close> here and is coerced to NaT by \<open>to_datetime\<close>.
\<close>

definition fillna_0 :: "int option \<Rightarrow> int" where
  "fillna_0 v = (case v of None \<Rightarrow> 0 | Some x \<Rightarrow> x)"

definition fill_missing :: "raw_row \<Rightarrow> (string option, string, int) row" where
  "fill_missing r =
     \<lparr>date = date r,
      msg_type = (case msg_type r of None \<Rightarrow> ''NULL'' | Some m \<Rightarrow> m),
      affects_fob = fillna_0 (affects_fob r),
      affects_iob = fillna_0 (affects_iob r),
      others = map fillna_0 (others r)\<rparr>"

text \<open>
  \<^verbatim>\<open>pd.to_datetime(df['date'], format='%Y-%m-%d %H:%M:%S%z', errors='coerce', utc=True)\<close>.
  The parser of the format is the library's and is a parameter \<open>strptime\<close>: it gives the
  instant in UTC, or \<open>None\<close> where the text does not match; \<^verbatim>\<open>errors='coerce'\<close> turns a
  failure into NaT (\<open>None\<close>) instead of raising.
\<close>

definition to_datetime ::
  "(string \<Rightarrow> int option) \<Rightarrow> (string option, 'm, 'v) row \<Rightarrow> (int option, 'm, 'v) row" where
  "to_datetime strptime r =
     \<lparr>date = (case date r of None \<Rightarrow> None | Some d \<Rightarrow> strptime d),
      msg_type = msg_type r, affects_fob = affects_fob r, affects_iob = affects_iob r,
      others = others r\<rparr>"

text \<open>\<^verbatim>\<open>df = df.dropna(subset=['date'])\<close>; the rows that stay have a date.\<close>

fun dropna :: "(int option, 'm, 'v) row list \<Rightarrow> (int, 'm, 'v) row list" where
  "dropna [] = []"
| "dropna (r # rs) =
     (case date r of
        None \<Rightarrow> dropna rs
      | Some t \<Rightarrow> \<lparr>date = t, msg_type = msg_type r, affects_fob = affects_fob r,
                    affects_iob = affects_iob r, others = others r\<rparr> # dropna rs)"

text \<open>
  \<^verbatim>\<open>df = df.sort_values('date')\<close> is the library's and is a parameter \<open>sort_values\<close> of the
  model. The call passes no \<^verbatim>\<open>kind\<close>, so pandas sorts with its default
  \<^verbatim>\<open>kind='quicksort'\<close>, which is documented as not stable. What the library promises is
  \<open>sorts_by_date\<close>: the result is ascending in the date and a rearrangement of the rows.
  \<open>stable_sort_values\<close> is the stable one among the sorts that meet this contract, and
  \<open>reversed_ties_sort\<close> another one.
\<close>

definition sorts_by_date :: "(clean_row list \<Rightarrow> clean_row list) \<Rightarrow> bool" where
  "sorts_by_date sort_values \<longleftrightarrow>
     (\<forall>rs. sorted (map date (sort_values rs)) \<and> mset (sort_values rs) = mset rs)"

definition stable_sort_values :: "clean_row list \<Rightarrow> clean_row list" where
  "stable_sort_values rs = sort_key date rs"

definition reversed_ties_sort :: "clean_row list \<Rightarrow> clean_row list" where
  "reversed_ties_sort rs = rev (sort_key (\<lambda>r. - date r) rs)"

text \<open>\<^verbatim>\<open>df[c] = df[c].apply(lambda x: 1 if x != 0 else 0)\<close> for both flags.\<close>

definition coerce_flags :: "('d, 'm, int) row \<Rightarrow> ('d, 'm, int) row" where
  "coerce_flags r =
     r\<lparr>affects_fob := (if affects_fob r \<noteq> 0 then 1 else 0),
       affects_iob := (if affects_iob r \<noteq> 0 then 1 else 0)\<rparr>"

definition RELEVANT_MSG_TYPES :: "string list" where
  "RELEVANT_MSG_TYPES =
     [''ANNOUNCE_MEAL'', ''INTERVENTION_SNACK'', ''ANNOUNCE_EXERCISE'', ''DOSE_INSULIN'',
      ''DOSE_BASAL_INSULIN'']"

text \<open>
  \<^verbatim>\<open>OneHotEncoder(categories='auto', sparse_output=False).fit_transform(df[['msg_type']])\<close>:
  the categories are the distinct values in ascending order, and a row's encoding has a 1
  at its own category. The encoder validates its input and raises \<^verbatim>\<open>ValueError\<close> on a
  table without rows (\<^verbatim>\<open>check_array\<close> requires at least one sample).
\<close>

definition fit_transform :: "string list \<Rightarrow> error + string list \<times> int list list" where
  "fit_transform xs =
     (if xs = [] then Inl ValueError
      else let categories = sort (remdups xs)
           in Inr (categories, map (\<lambda>x. map (\<lambda>c. if x = c then 1 else 0) categories) xs))"

text \<open>\<^verbatim>\<open>encoder.get_feature_names_out(['msg_type'])\<close>\<close>

definition get_feature_names_out :: "string list \<Rightarrow> string list" where
  "get_feature_names_out categories = map (\<lambda>c. ''msg_type_'' @ c) categories"

text \<open>
  \<^verbatim>\<open>[col for col in df.columns if 'msg_type' in col and not any(msg_type in col for
  msg_type in RELEVANT_MSG_TYPES)]\<close>; \<^verbatim>\<open>in\<close> between two strings is the substring test.
\<close>

definition COLUMNS_TO_DROP :: "string list \<Rightarrow> string list" where
  "COLUMNS_TO_DROP cols =
     filter (\<lambda>col. sublist ''msg_type'' col \<and>
                   \<not> list_ex (\<lambda>msg_type. sublist msg_type col) RELEVANT_MSG_TYPES) cols"

text \<open>\<^verbatim>\<open>df.drop(columns=names)\<close> for labels that all occur among the columns.\<close>

definition drop_columns :: "string list \<Rightarrow> frame \<Rightarrow> frame" where
  "drop_columns names f =
     \<lparr>columns = filter (\<lambda>c. c \<notin> set names) (columns f),
      index = index f,
      cells = map (\<lambda>r. map snd (filter (\<lambda>(c, v). c \<notin> set names) (zip (columns f) r))) (cells f)\<rparr>"

text \<open>
  The function, line by line. After \<^verbatim>\<open>set_index('date')\<close> the dates are the index; the
  table that remains after \<^verbatim>\<open>df.drop(columns=['msg_type'])\<close> is joined with the encoded
  columns by \<^verbatim>\<open>pd.concat(..., axis=1)\<close>.
\<close>

definition preprocess_data ::
  "(string \<Rightarrow> int option) \<Rightarrow> (clean_row list \<Rightarrow> clean_row list) \<Rightarrow> raw_frame
     \<Rightarrow> error + frame" where
  "preprocess_data strptime sort_values df =
     (let filled = map fill_missing (records df);
          dated = map (to_datetime strptime) filled;
          kept = dropna dated;
          ordered = sort_values kept;
          rs = map coerce_flags ordered
      in and_then (fit_transform (map msg_type rs)) (\<lambda>(categories, encoded_data).
           let joined =
                 \<lparr>columns = [''affects_fob'', ''affects_iob''] @ other_columns df
                              @ get_feature_names_out categories,
                  index = map date rs,
                  cells = map2 (\<lambda>r e. [affects_fob r, affects_iob r] @ others r @ e)
                            rs encoded_data\<rparr>
           in Inr (drop_columns (COLUMNS_TO_DROP (columns joined)) joined)))"

text \<open>
  Names for the parts of \<open>preprocess_data\<close>: the rows that survive \<^verbatim>\<open>dropna\<close>, the
  categories the encoder finds, the columns after \<^verbatim>\<open>pd.concat\<close>, and the cells of one row
  of the result.
\<close>

definition kept_rows :: "(string \<Rightarrow> int option) \<Rightarrow> raw_frame \<Rightarrow> clean_row list" where
  "kept_rows strptime df = dropna (map (to_datetime strptime) (map fill_missing (records df)))"

definition categories_of :: "clean_row list \<Rightarrow> string list" where
  "categories_of rs = sort (remdups (map msg_type rs))"

definition joined_columns :: "string list \<Rightarrow> string list \<Rightarrow> string list" where
  "joined_columns other categories =
     [''affects_fob'', ''affects_iob''] @ other @ get_feature_names_out categories"

definition out_row :: "string list \<Rightarrow> string list \<Rightarrow> clean_row \<Rightarrow> int list" where
  "out_row other categories r =
     map snd (filter (\<lambda>(c, v). c \<notin> set (COLUMNS_TO_DROP (joined_columns other categories)))
       (zip (joined_columns other categories)
          ([affects_fob r, affects_iob r] @ others r
             @ map (\<lambda>c. if msg_type r = c then 1 else 0) categories)))"

text \<open>
  Sample data. \<open>sample_strptime\<close> stands for the parser on the few date strings used
  below: it gives their instants (seconds since the epoch, UTC) and rejects every other
  string, among them \<^verbatim>\<open>'yesterday'\<close>, which does not match the format.
\<close>

definition sample_strptime :: "string \<Rightarrow> int option" where
  "sample_strptime = map_of
     [(''2024-01-01 08:00:00+00:00'', 1704096000),
      (''2024-01-01 09:00:00+00:00'', 1704099600),
      (''2024-01-01 12:30:00+00:00'', 1704112200)]"

definition sample_row :: "string \<Rightarrow> string \<Rightarrow> raw_row" where
  "sample_row d m =
     \<lparr>date = Some d, msg_type = Some m, affects_fob = Some 0, affects_iob = Some 3, others = []\<rparr>"


definition tied_rows :: raw_frame where
  "tied_rows =
     \<lparr>other_columns = [],
      records =
        [sample_row ''2024-01-01 09:00:00+00:00'' ''ANNOUNCE_MEAL'',
         sample_row ''2024-01-01 08:00:00+00:00'' ''ANNOUNCE_MEAL'',
         sample_row ''2024-01-01 08:00:00+00:00'' ''DOSE_INSULIN'',
         sample_row ''yesterday'' ''MEAL_END'']\<rparr>"

definition substring_category :: raw_frame where
  "substring_category =
     \<lparr>other_columns = [],
      records =
        [sample_row ''2024-01-01 08:00:00+00:00'' ''ANNOUNCE_MEAL_END'',
         sample_row ''2024-01-01 09:00:00+00:00'' ''MEAL_END'']\<rparr>"

definition no_valid_date :: raw_frame where
  "no_valid_date =
     \<lparr>other_columns = [], records = [sample_row ''yesterday'' ''DOSE_INSULIN'']\<rparr>"

section \<open>The loop of create_meal_labels, step by step\<close>

lemma and_then_Inr [simp]: "and_then (Inr x) f = f x"
  by (simp add: and_then_def)

lemma and_then_Inl [simp]: "and_then (Inl e) f = Inl e"
  by (simp add: and_then_def)

lemma and_then_eq_Inr: "and_then r f = Inr y \<longleftrightarrow> (\<exists>x. r = Inr x \<and> f x = Inr y)"
  by (cases r) simp_all

lemma for_range_append:
  "for_range body (xs @ ys) s = and_then (for_range body xs s) (for_range body ys)"
proof (induction xs arbitrary: s)
  case Nil
  show ?case by simp
next
  case (Cons i xs)
  show ?case by (cases "body i s") (simp_all add: Cons.IH)
qed

lemma scan_rows_0: "scan_rows ms me n 0 = Inr (init_labeler n)"
  by (simp add: scan_rows_def)

lemma scan_rows_Suc:
  "scan_rows ms me n (Suc k) = and_then (scan_rows ms me n k) (loop_body ms me k)"
proof -
  have "for_range (loop_body ms me) [k] s = loop_body ms me k s" for s
    by (cases "loop_body ms me k s") simp_all
  then have "for_range (loop_body ms me) [k] = loop_body ms me k" by (rule ext)
  then show ?thesis by (simp add: scan_rows_def for_range_append)
qed

lemma open_meal_ok:
  "i < length ms \<Longrightarrow> open_meal ms i s =
     Inr (if ms ! i then s\<lparr>active_meals := active_meals s @ [meal_counter s],
                            meal_counter := meal_counter s + 1\<rparr> else s)"
  by (simp add: open_meal_def iloc_def)

lemma write_label_ok:
  "i < length (labels s) \<Longrightarrow> write_label i s =
     Inr (if active_meals s = [] then s else s\<lparr>labels := (labels s)[i := last (active_meals s)]\<rparr>)"
  by (simp add: write_label_def getitem_last_def setitem_def)

lemma close_meal_ok:
  "i < length me \<Longrightarrow> close_meal me i s =
     Inr (if me ! i \<and> active_meals s \<noteq> [] then s\<lparr>active_meals := butlast (active_meals s)\<rparr> else s)"
  by (simp add: close_meal_def iloc_def pop_def)

lemma starts_before_0 [simp]: "starts_before ms 0 = 0"
  by (simp add: starts_before_def)

lemma starts_before_Suc:
  "i < length ms \<Longrightarrow> starts_before ms (Suc i) = starts_before ms i + (if ms ! i then 1 else 0)"
  by (simp add: starts_before_def take_Suc_conv_app_nth)

lemma starts_before_mono: "i \<le> j \<Longrightarrow> starts_before ms i \<le> starts_before ms j"
proof -
  assume "i \<le> j"
  then obtain d where "j = i + d" using le_Suc_ex by blast
  then show ?thesis by (simp add: starts_before_def take_add)
qed

lemma loop_body_eq:
  assumes "i < length ms" "i < length me" "i < length (labels s)"
  shows "loop_body ms me i s =
     Inr \<lparr>labels = (if \<not> ms ! i \<and> active_meals s = [] then labels s
                   else (labels s)[i := (if ms ! i then meal_counter s else last (active_meals s))]),
          meal_counter = (if ms ! i then meal_counter s + 1 else meal_counter s),
          active_meals = (if ms ! i then (if me ! i then active_meals s else active_meals s @ [meal_counter s])
                          else (if me ! i \<and> active_meals s \<noteq> [] then butlast (active_meals s)
                                else active_meals s))\<rparr>"
  using assms by (simp add: loop_body_def open_meal_ok write_label_ok close_meal_ok)

lemma stack_ok_push: "stack_ok s \<Longrightarrow>
   stack_ok (s\<lparr>active_meals := active_meals s @ [meal_counter s], meal_counter := meal_counter s + 1\<rparr>)"
  by (auto simp: stack_ok_def sorted_wrt_append)

lemma sorted_wrt_butlast: "sorted_wrt P xs \<Longrightarrow> sorted_wrt P (butlast xs)"
  by (induction xs) (auto dest: in_set_butlastD)

lemma stack_ok_pop: "stack_ok s \<Longrightarrow> stack_ok (s\<lparr>active_meals := butlast (active_meals s)\<rparr>)"
  by (auto simp: stack_ok_def sorted_wrt_butlast dest: in_set_butlastD)

lemma stack_ok_counter: "stack_ok s \<Longrightarrow> stack_ok (s\<lparr>meal_counter := meal_counter s + 1\<rparr>)"
  by (auto simp: stack_ok_def)

lemma stack_ok_cong:
  "stack_ok s \<Longrightarrow> active_meals s' = active_meals s \<Longrightarrow> meal_counter s' = meal_counter s \<Longrightarrow> stack_ok s'"
  by (simp add: stack_ok_def)

lemma stack_ok_last: "stack_ok s \<Longrightarrow> active_meals s \<noteq> [] \<Longrightarrow>
   1 \<le> last (active_meals s) \<and> last (active_meals s) < meal_counter s"
  by (simp add: stack_ok_def)

lemma scan_inv_0: "scan_inv ms n 0 (init_labeler n)"
  by (simp add: scan_inv_def init_labeler_def stack_ok_def)

lemma scan_inv_step:
  assumes inv: "scan_inv ms n k s" and len: "length ms = n" "length me = n" and k: "k < n"
  shows "\<exists>s'. loop_body ms me k s = Inr s' \<and> scan_inv ms n (Suc k) s'"
proof -
  from inv have L: "length (labels s) = n" and C: "meal_counter s = 1 + int (starts_before ms k)"
    and S: "stack_ok s" and Z: "\<And>j. k \<le> j \<Longrightarrow> j < n \<Longrightarrow> labels s ! j = 0"
    and B: "\<And>j. j < k \<Longrightarrow> 0 \<le> labels s ! j \<and> labels s ! j \<le> int (starts_before ms (Suc j))"
    by (simp_all add: scan_inv_def)
  let ?v = "if ms ! k then meal_counter s else last (active_meals s)"
  let ?ls = "if \<not> ms ! k \<and> active_meals s = [] then labels s else (labels s)[k := ?v]"
  let ?c = "if ms ! k then meal_counter s + 1 else meal_counter s"
  let ?am = "if ms ! k then (if me ! k then active_meals s else active_meals s @ [meal_counter s])
             else (if me ! k \<and> active_meals s \<noteq> [] then butlast (active_meals s) else active_meals s)"
  let ?s' = "\<lparr>labels = ?ls, meal_counter = ?c, active_meals = ?am\<rparr>"
  have eq: "loop_body ms me k s = Inr ?s'"
    using loop_body_eq[of k ms me s] k len L by simp
  have SB: "starts_before ms (Suc k) = starts_before ms k + (if ms ! k then 1 else 0)"
    using starts_before_Suc k len by simp
  have 1: "length (labels ?s') = n" using L by simp
  have 2: "meal_counter ?s' = 1 + int (starts_before ms (Suc k))" using C SB by simp
  have 3: "stack_ok ?s'"
    using S stack_ok_push[OF S] stack_ok_pop[OF S] stack_ok_counter[OF S]
    by (auto simp: stack_ok_def)
  have 4: "labels ?s' ! j = 0" if "Suc k \<le> j" "j < n" for j
    using that Z[of j] by simp
  have lk: "0 \<le> labels ?s' ! k \<and> labels ?s' ! k \<le> int (starts_before ms (Suc k))"
  proof (cases "ms ! k")
    case True
    then show ?thesis using L k C SB by simp
  next
    case False
    show ?thesis
    proof (cases "active_meals s = []")
      case True
      then show ?thesis using False Z[of k] k by simp
    next
      case ne: False
      then show ?thesis using False stack_ok_last[OF S ne] L k C SB by simp
    qed
  qed
  have 5: "0 \<le> labels ?s' ! j \<and> labels ?s' ! j \<le> int (starts_before ms (Suc j))" if "j < Suc k" for j
  proof (cases "j = k")
    case True
    then show ?thesis using lk by simp
  next
    case False
    then have "j < k" using that by simp
    then show ?thesis using B[of j] by simp
  qed
  have "scan_inv ms n (Suc k) ?s'"
    unfolding scan_inv_def using 1 2 3 4 5 by blast
  then show ?thesis using eq by blast
qed

lemma scan_rows_inv:
  assumes "length ms = n" "length me = n" "k \<le> n"
  shows "\<exists>s. scan_rows ms me n k = Inr s \<and> scan_inv ms n k s"
  using assms(3)
proof (induction k)
  case 0
  show ?case by (simp add: scan_rows_0 scan_inv_0)
next
  case (Suc k)
  then obtain s where s: "scan_rows ms me n k = Inr s" "scan_inv ms n k s" by auto
  from scan_inv_step[OF s(2) assms(1,2)] Suc.prems
  obtain s' where "loop_body ms me k s = Inr s'" "scan_inv ms n (Suc k) s'" by auto
  then show ?case using s(1) by (simp add: scan_rows_Suc)
qed

lemma scan_rows_state:
  assumes "length ms = n" "length me = n" "k \<le> n"
  obtains s where "scan_rows ms me n k = Inr s" "scan_inv ms n k s"
  using scan_rows_inv[OF assms] by blast

text \<open>What one iteration writes, given the invariant.\<close>

lemma scan_rows_step:
  assumes len: "length ms = n" "length me = n" and k: "k < n"
    and s: "scan_rows ms me n k = Inr s"
  shows "scan_rows ms me n (Suc k) =
     Inr \<lparr>labels = (labels s)[k := (if ms ! k then meal_counter s
                                    else if active_meals s = [] then 0 else last (active_meals s))],
          meal_counter = (if ms ! k then meal_counter s + 1 else meal_counter s),
          active_meals = (if ms ! k then (if me ! k then active_meals s else active_meals s @ [meal_counter s])
                          else (if me ! k \<and> active_meals s \<noteq> [] then butlast (active_meals s)
                                else active_meals s))\<rparr>"
proof -
  from scan_rows_inv[OF len, of k] k s have inv: "scan_inv ms n k s" by simp
  then have L: "length (labels s) = n" and Z: "labels s ! k = 0"
    using k by (simp_all add: scan_inv_def)
  have "(labels s)[k := 0] = labels s" using Z by (metis list_update_id)
  then show ?thesis
    using loop_body_eq[of k ms me s] k len L s by (simp add: scan_rows_Suc)
qed

lemma labels_frozen:
  assumes len: "length ms = n" "length me = n" and k': "k' \<le> n" and kk: "k \<le> k'"
    and s: "scan_rows ms me n k = Inr s" and s': "scan_rows ms me n k' = Inr s'" and j: "j < k"
  shows "labels s' ! j = labels s ! j"
  using kk k' s'
proof (induction k' arbitrary: s')
  case 0
  then show ?case using j by simp
next
  case (Suc m)
  show ?case
  proof (cases "k = Suc m")
    case True
    then show ?thesis using s Suc.prems by simp
  next
    case False
    then have km: "k \<le> m" and mn: "m < n" using Suc.prems by simp_all
    obtain t where t: "scan_rows ms me n m = Inr t"
      using scan_rows_state[OF len, of m] mn by (metis less_imp_le)
    have "labels t ! j = labels s ! j" using Suc.IH[OF km _ t] mn by simp
    moreover have "labels s' ! j = labels t ! j"
      using scan_rows_step[OF len mn t] Suc.prems(3) j km by simp
    ultimately show ?thesis by simp
  qed
qed

text \<open>The label of row \<open>i\<close> in the result is the one written in iteration \<open>i\<close>.\<close>

lemma label_of_row:
  assumes len: "length ms = n" "length me = n" and i: "i < n"
    and s: "scan_rows ms me n i = Inr s"
  shows "\<exists>ls. label_flags ms me n = Inr ls \<and> length ls = n \<and>
     ls ! i = (if ms ! i then meal_counter s
               else if active_meals s = [] then 0 else last (active_meals s))"
proof -
  obtain t where t: "scan_rows ms me n n = Inr t" and tinv: "scan_inv ms n n t"
    using scan_rows_state[OF len, of n] by auto
  obtain s' where s': "scan_rows ms me n (Suc i) = Inr s'"
    using scan_rows_step[OF len i s] by simp
  have L: "length (labels s) = n"
    using scan_rows_inv[OF len, of i] i s by (simp add: scan_inv_def)
  have "labels t ! i = labels s' ! i"
    using labels_frozen[OF len _ _ s' t, of i] i by simp
  moreover have "labels s' ! i = (if ms ! i then meal_counter s
               else if active_meals s = [] then 0 else last (active_meals s))"
    using scan_rows_step[OF len i s] s' L i by auto
  ultimately show ?thesis using t tinv by (simp add: label_flags_def scan_inv_def)
qed

lemma length_meal_flags [simp]:
  "length (meal_start_of df) = length df" "length (meal_end_of df) = length df"
  by (simp_all add: meal_start_of_def meal_end_of_def)

lemma nth_meal_start_of:
  "i < length df \<Longrightarrow> meal_start_of df ! i = (msg_type (df ! i) = Some ''ANNOUNCE_MEAL'')"
  by (simp add: meal_start_of_def)

lemma nth_meal_end_of:
  "i < length df \<Longrightarrow> meal_end_of df ! i = (msg_type (df ! i) = Some ''MEAL_END'')"
  by (simp add: meal_end_of_def)

lemma open_meal_state:
  assumes "i < length ms"
  shows "\<exists>s1. open_meal ms i s = Inr s1 \<and> labels s1 = labels s \<and>
     active_meals s1 = (if ms ! i then active_meals s @ [meal_counter s] else active_meals s) \<and>
     meal_counter s1 = (if ms ! i then meal_counter s + 1 else meal_counter s)"
  using assms by (simp add: open_meal_ok)




lemma write_label_state:
  assumes "i < length (labels s)"
  shows "\<exists>s2. write_label i s = Inr s2 \<and> active_meals s2 = active_meals s \<and>
     meal_counter s2 = meal_counter s"
  using assms by (simp add: write_label_ok)

lemma labels_bounded:
  assumes len: "length ms = n" "length me = n" and ls: "label_flags ms me n = Inr ls" and j: "j < n"
  shows "0 \<le> ls ! j \<and> ls ! j \<le> int (starts_before ms (Suc j))"
proof -
  obtain t where t: "scan_rows ms me n n = Inr t" and tinv: "scan_inv ms n n t"
    using scan_rows_state[OF len, of n] by auto
  have "ls = labels t" using ls t by (simp add: label_flags_def)
  then show ?thesis using tinv j by (simp add: scan_inv_def)
qed

lemma loop_body_flags_cong:
  "length ms = length ms' \<Longrightarrow> length me = length me' \<Longrightarrow> ms ! k = ms' ! k \<Longrightarrow> me ! k = me' ! k
   \<Longrightarrow> loop_body ms me k s = loop_body ms' me' k s"
  by (simp add: loop_body_def open_meal_def close_meal_def iloc_def)

lemma scan_rows_agree:
  assumes len: "length ms = length ms'" "length me = length me'"
    and k: "k0 \<le> k"
    and start: "scan_rows ms me n k0 = scan_rows ms' me' n k0"
    and same: "\<And>j. k0 \<le> j \<Longrightarrow> j < k \<Longrightarrow> ms ! j = ms' ! j \<and> me ! j = me' ! j"
  shows "scan_rows ms me n k = scan_rows ms' me' n k"
  using k same
proof (induction k)
  case 0
  then show ?case using start by simp
next
  case (Suc m)
  show ?case
  proof (cases "k0 = Suc m")
    case True
    then show ?thesis using start by simp
  next
    case False
    then have km: "k0 \<le> m" using Suc.prems by simp
    have IH: "scan_rows ms me n m = scan_rows ms' me' n m"
      using Suc.IH[OF km] Suc.prems(2) by simp
    have "loop_body ms me m = loop_body ms' me' m"
      using loop_body_flags_cong[OF len, of m] Suc.prems(2)[of m] km by auto
    then show ?thesis using IH by (simp add: scan_rows_Suc)
  qed
qed

lemma sorted_wrt_le_last:
  fixes xs :: "int list"
  assumes "sorted_wrt (<) xs" "x \<in> set xs"
  shows "x \<le> last xs"
  using assms
proof (induction xs)
  case Nil
  then show ?case by simp
next
  case (Cons a xs)
  show ?case
  proof (cases "xs = []")
    case True
    then show ?thesis using Cons.prems by simp
  next
    case False
    then have "last xs \<in> set xs" by simp
    then have "a < last xs" using Cons.prems(1) by simp
    moreover have "x \<le> last xs" if "x \<in> set xs" using Cons.IH that Cons.prems(1) by simp
    ultimately show ?thesis using Cons.prems(2) False by auto
  qed
qed

section \<open>Claims about create_meal_labels\<close>

text \<open>
  C1. For every table, a row \<open>i\<close> that is a meal start, being the \<open>k\<close>-th such row
  (\<open>k\<close> is 1 plus the number of meal-start rows before it, which is the value of the
  counter when the row is reached), gets the label \<open>k\<close>; \<open>k\<close> is appended to
  \<^verbatim>\<open>active_meals\<close> on that row; and every earlier row has a label below \<open>k\<close>, so \<open>k\<close>
  appears nowhere before its start row.
\<close>

theorem kth_meal_start_gets_identifier_k:
  assumes i: "i < length df" and st: "msg_type (df ! i) = Some ''ANNOUNCE_MEAL''"
  shows "\<exists>s s1 ls. state_before df i = Inr s \<and> open_meal (meal_start_of df) i s = Inr s1 \<and>
           create_meal_labels df = Inr ls \<and>
           meal_counter s = 1 + int (starts_before (meal_start_of df) i) \<and>
           active_meals s1 = active_meals s @ [meal_counter s] \<and>
           ls ! i = meal_counter s \<and>
           (\<forall>j<i. ls ! j < meal_counter s)"
proof -
  let ?ms = "meal_start_of df" and ?me = "meal_end_of df" and ?n = "length df"
  have len: "length ?ms = ?n" "length ?me = ?n" by simp_all
  have msi: "?ms ! i" using i st by (simp add: nth_meal_start_of)
  obtain s where s: "scan_rows ?ms ?me ?n i = Inr s" and inv: "scan_inv ?ms ?n i s"
    using scan_rows_state[OF len, of i] i by (metis less_imp_le)
  have cnt: "meal_counter s = 1 + int (starts_before ?ms i)"
    using inv by (simp add: scan_inv_def)
  obtain s1 where s1: "open_meal ?ms i s = Inr s1" "active_meals s1 = active_meals s @ [meal_counter s]"
    using open_meal_state[of i ?ms s] i msi by auto
  obtain ls where ls: "label_flags ?ms ?me ?n = Inr ls" "ls ! i = meal_counter s"
    using label_of_row[OF len i s] msi by auto
  have earlier: "ls ! j < meal_counter s" if "j < i" for j
  proof -
    have "ls ! j \<le> int (starts_before ?ms (Suc j))"
      using labels_bounded[OF len ls(1), of j] that i by simp
    also have "\<dots> \<le> int (starts_before ?ms i)"
      using starts_before_mono[of "Suc j" i ?ms] that by simp
    finally show ?thesis using cnt by simp
  qed
  show ?thesis
    using s s1 ls cnt earlier by (auto simp: state_before_def create_meal_labels_def)
qed

theorem kth_meal_start_gets_identifier_k_witness:
  "create_meal_labels stray_end = Inr [1, 1, 0, 2, 2] \<and>
   3 < length stray_end \<and> msg_type (stray_end ! 3) = Some ''ANNOUNCE_MEAL'' \<and>
   (\<exists>s s1 ls. state_before stray_end 3 = Inr s \<and>
      open_meal (meal_start_of stray_end) 3 s = Inr s1 \<and>
      create_meal_labels stray_end = Inr ls \<and>
      meal_counter s = 1 + int (starts_before (meal_start_of stray_end) 3) \<and>
      active_meals s1 = active_meals s @ [meal_counter s] \<and>
      ls ! 3 = meal_counter s \<and> (\<forall>j<3. ls ! j < meal_counter s))"
proof -
  have h1: "3 < length stray_end" by (simp add: stray_end_def)
  have h2: "msg_type (stray_end ! 3) = Some ''ANNOUNCE_MEAL''"
    by (simp add: stray_end_def event_def)
  have ex: "create_meal_labels stray_end = Inr [1, 1, 0, 2, 2]" by code_simp
  show ?thesis using kth_meal_start_gets_identifier_k[OF h1 h2] h1 h2 ex by blast
qed

text \<open>
  C2. The label of a row is the top of the stack as it stands after the row's own start
  has been pushed; the top is the largest, that is the most recently opened, of the
  identifiers still open. The table start, start, end, end gets the labels 1, 2, 2, 1.
\<close>

theorem top_of_stack_is_emitted:
  assumes i: "i < length df"
  shows "create_meal_labels nested_meals = Inr [1, 2, 2, 1] \<and>
         (\<exists>s s1 ls. state_before df i = Inr s \<and> open_meal (meal_start_of df) i s = Inr s1 \<and>
            create_meal_labels df = Inr ls \<and>
            (active_meals s1 \<noteq> [] \<longrightarrow>
               ls ! i = last (active_meals s1) \<and> (\<forall>x \<in> set (active_meals s1). x \<le> ls ! i)))"
proof -
  let ?ms = "meal_start_of df" and ?me = "meal_end_of df" and ?n = "length df"
  have len: "length ?ms = ?n" "length ?me = ?n" by simp_all
  obtain s where s: "scan_rows ?ms ?me ?n i = Inr s" and inv: "scan_inv ?ms ?n i s"
    using scan_rows_state[OF len, of i] i by (metis less_imp_le)
  obtain s1 where s1: "open_meal ?ms i s = Inr s1"
      "active_meals s1 = (if ?ms ! i then active_meals s @ [meal_counter s] else active_meals s)"
    using open_meal_state[of i ?ms s] i by auto
  obtain ls where ls: "label_flags ?ms ?me ?n = Inr ls"
      "ls ! i = (if ?ms ! i then meal_counter s
                 else if active_meals s = [] then 0 else last (active_meals s))"
    using label_of_row[OF len i s] by auto
  have ok: "stack_ok s" using inv by (simp add: scan_inv_def)
  have top: "ls ! i = last (active_meals s1)" if "active_meals s1 \<noteq> []"
    using that s1(2) ls(2) by (simp split: if_splits)
  have sorted1: "sorted_wrt (<) (active_meals s1)"
    using ok s1(2) by (auto simp: stack_ok_def sorted_wrt_append)
  have "\<forall>x \<in> set (active_meals s1). x \<le> ls ! i" if "active_meals s1 \<noteq> []"
    using top[OF that] sorted_wrt_le_last[OF sorted1] by simp
  moreover have "create_meal_labels nested_meals = Inr [1, 2, 2, 1]"
    by code_simp
  ultimately show ?thesis
    using s s1(1) ls(1) top by (auto simp: state_before_def create_meal_labels_def)
qed

theorem top_of_stack_is_emitted_witness:
  "2 < length nested_meals \<and> create_meal_labels nested_meals = Inr [1, 2, 2, 1] \<and>
   (\<exists>s s1 ls. state_before nested_meals 2 = Inr s \<and>
      open_meal (meal_start_of nested_meals) 2 s = Inr s1 \<and>
      create_meal_labels nested_meals = Inr ls \<and>
      (active_meals s1 \<noteq> [] \<longrightarrow>
         ls ! 2 = last (active_meals s1) \<and> (\<forall>x \<in> set (active_meals s1). x \<le> ls ! 2)))"
proof -
  have h: "2 < length nested_meals" by (simp add: nested_meals_def)
  show ?thesis using top_of_stack_is_emitted[OF h] h by blast
qed


text \<open>
  C4. An end marker met while \<^verbatim>\<open>active_meals\<close> is empty changes nothing: the iteration
  raises no error and leaves the whole state (stack, counter, labels) as it was, the
  function returns labels none of which is negative, and it returns the very same labels
  when that row is replaced by a row that is neither an end nor a start.
\<close>

theorem meal_end_on_empty_stack_is_ignored:
  assumes i: "i < length df" and en: "msg_type (df ! i) = Some ''MEAL_END''"
    and s: "state_before df i = Inr s" and empty: "active_meals s = []"
    and r: "msg_type r \<noteq> Some ''MEAL_END''" "msg_type r \<noteq> Some ''ANNOUNCE_MEAL''"
  shows "state_before df (Suc i) = Inr s \<and>
         (\<exists>ls. create_meal_labels df = Inr ls \<and> (\<forall>x \<in> set ls. 0 \<le> x) \<and>
                create_meal_labels (df[i := r]) = Inr ls)"
proof -
  let ?ms = "meal_start_of df" and ?me = "meal_end_of df" and ?n = "length df"
  let ?ms' = "meal_start_of (df[i := r])" and ?me' = "meal_end_of (df[i := r])"
  have len: "length ?ms = ?n" "length ?me = ?n" by simp_all
  have len': "length ?ms' = ?n" "length ?me' = ?n" by simp_all
  have msi: "\<not> ?ms ! i" using i en by (simp add: nth_meal_start_of)
  have msi': "\<not> ?ms' ! i" "\<not> ?me' ! i"
    using i r by (simp_all add: nth_meal_start_of nth_meal_end_of)
  have other: "?ms ! j = ?ms' ! j \<and> ?me ! j = ?me' ! j" if "j \<noteq> i" "j < ?n" for j
    using that by (simp add: nth_meal_start_of nth_meal_end_of)
  have sc: "scan_rows ?ms ?me ?n i = Inr s" using s by (simp add: state_before_def)
  have inv: "scan_inv ?ms ?n i s"
    using scan_rows_inv[OF len, of i] i sc by simp
  then have Z: "labels s ! i = 0" using i by (simp add: scan_inv_def)
  have same_s: "\<lparr>labels = (labels s)[i := 0], meal_counter = meal_counter s, active_meals = []\<rparr> = s"
    using Z empty by (metis (full_types) labeler.surjective list_update_id old.unit.exhaust)
  have step: "scan_rows ?ms ?me ?n (Suc i) = Inr s"
    using scan_rows_step[OF len i sc] msi empty same_s by simp
  have before: "scan_rows ?ms' ?me' ?n i = scan_rows ?ms ?me ?n i"
  proof (rule scan_rows_agree[of _ _ _ _ 0])
    show "length ?ms' = length ?ms" "length ?me' = length ?me" by simp_all
    show "0 \<le> i" by simp
    show "scan_rows ?ms' ?me' ?n 0 = scan_rows ?ms ?me ?n 0" by (simp add: scan_rows_0)
    show "?ms' ! j = ?ms ! j \<and> ?me' ! j = ?me ! j" if "0 \<le> j" "j < i" for j
      using other[of j] that i by simp
  qed
  have step': "scan_rows ?ms' ?me' ?n (Suc i) = Inr s"
    using scan_rows_step[OF len' i, of s] before sc msi' empty same_s by simp
  have final: "scan_rows ?ms' ?me' ?n ?n = scan_rows ?ms ?me ?n ?n"
  proof (rule scan_rows_agree[of _ _ _ _ "Suc i"])
    show "length ?ms' = length ?ms" "length ?me' = length ?me" by simp_all
    show "Suc i \<le> ?n" using i by simp
    show "scan_rows ?ms' ?me' ?n (Suc i) = scan_rows ?ms ?me ?n (Suc i)"
      using step step' by simp
    show "?ms' ! j = ?ms ! j \<and> ?me' ! j = ?me ! j" if "Suc i \<le> j" "j < ?n" for j
      using other[of j] that by simp
  qed
  obtain ls where ls: "label_flags ?ms ?me ?n = Inr ls" "length ls = ?n"
    using label_of_row[OF len i sc] by auto
  have nonneg: "\<forall>x \<in> set ls. 0 \<le> x"
    using labels_bounded[OF len ls(1)] ls(2) by (auto simp: in_set_conv_nth)
  have "create_meal_labels (df[i := r]) = create_meal_labels df"
    using final by (simp add: create_meal_labels_def label_flags_def)
  then show ?thesis
    using step ls(1) nonneg by (simp add: state_before_def create_meal_labels_def)
qed

theorem meal_end_on_empty_stack_is_ignored_witness:
  "2 < length stray_end \<and> msg_type (stray_end ! 2) = Some ''MEAL_END'' \<and>
   state_before stray_end 2 = Inr \<lparr>labels = [1, 1, 0, 0, 0], meal_counter = 2, active_meals = []\<rparr> \<and>
   state_before stray_end (Suc 2) = Inr \<lparr>labels = [1, 1, 0, 0, 0], meal_counter = 2, active_meals = []\<rparr> \<and>
   (\<exists>ls. create_meal_labels stray_end = Inr ls \<and> (\<forall>x \<in> set ls. 0 \<le> x) \<and>
          create_meal_labels (stray_end[2 := event ''NULL'']) = Inr ls)"
proof -
  have h1: "2 < length stray_end" by (simp add: stray_end_def)
  have h2: "msg_type (stray_end ! 2) = Some ''MEAL_END''" by (simp add: stray_end_def event_def)
  have h3: "state_before stray_end 2 =
      Inr \<lparr>labels = [1, 1, 0, 0, 0], meal_counter = 2, active_meals = []\<rparr>" by code_simp
  have h4: "active_meals \<lparr>labels = [1, 1, 0, 0, 0], meal_counter = 2, active_meals = []\<rparr> = []"
    by simp
  have h5: "msg_type (event ''NULL'') \<noteq> Some ''MEAL_END''"
       "msg_type (event ''NULL'') \<noteq> Some ''ANNOUNCE_MEAL''" by (simp_all add: event_def)
  show ?thesis
    using meal_end_on_empty_stack_is_ignored[OF h1 h2 h3 h4 h5] h1 h2 h3 by blast
qed

text \<open>
  C5. \<^verbatim>\<open>create_meal_labels\<close> returns on every table, also on the empty one, where it
  returns the empty array. The result has as many entries as the table has rows, and
  entry \<open>i\<close> is the value the loop determines in iteration \<open>i\<close>, for row \<open>i\<close>: the top of
  the stack after that row's push, or 0 when the stack is empty.
\<close>

theorem create_meal_labels_total:
  "create_meal_labels ([] :: ('d, string option, 'v) row list) = Inr [] \<and>
   (\<exists>ls. create_meal_labels (df :: ('d, string option, 'v) row list) = Inr ls \<and>
      length ls = length df \<and>
      (\<forall>i<length df. \<exists>s s1. state_before df i = Inr s \<and>
          open_meal (meal_start_of df) i s = Inr s1 \<and>
          ls ! i = (if active_meals s1 = [] then 0 else last (active_meals s1))))"
proof -
  let ?ms = "meal_start_of df" and ?me = "meal_end_of df" and ?n = "length df"
  have len: "length ?ms = ?n" "length ?me = ?n" by simp_all
  obtain t where t: "scan_rows ?ms ?me ?n ?n = Inr t" and tinv: "scan_inv ?ms ?n ?n t"
    using scan_rows_state[OF len, of ?n] by auto
  have ls: "create_meal_labels df = Inr (labels t)" "length (labels t) = ?n"
    using t tinv by (simp_all add: create_meal_labels_def label_flags_def scan_inv_def)
  have row: "\<exists>s s1. state_before df i = Inr s \<and> open_meal ?ms i s = Inr s1 \<and>
          labels t ! i = (if active_meals s1 = [] then 0 else last (active_meals s1))"
    if i: "i < ?n" for i
  proof -
    obtain s where s: "scan_rows ?ms ?me ?n i = Inr s"
      using scan_rows_state[OF len, of i] i by (metis less_imp_le)
    obtain s1 where s1: "open_meal ?ms i s = Inr s1"
        "active_meals s1 = (if ?ms ! i then active_meals s @ [meal_counter s] else active_meals s)"
      using open_meal_state[of i ?ms s] i by auto
    obtain ls' where ls': "label_flags ?ms ?me ?n = Inr ls'"
        "ls' ! i = (if ?ms ! i then meal_counter s
                    else if active_meals s = [] then 0 else last (active_meals s))"
      using label_of_row[OF len i s] by auto
    have "ls' = labels t" using ls' t by (simp add: label_flags_def)
    then show ?thesis using s s1 ls'(2) by (auto simp: state_before_def)
  qed
  have "create_meal_labels ([] :: ('d, string option, 'v) row list) = Inr []"
    by (simp add: create_meal_labels_def label_flags_def scan_rows_def init_labeler_def
        meal_start_of_def meal_end_of_def)
  then show ?thesis using ls row by blast
qed

theorem create_meal_labels_total_witness:
  "create_meal_labels stray_end = Inr [1, 1, 0, 2, 2] \<and>
   (\<exists>ls. create_meal_labels stray_end = Inr ls \<and> length ls = 5 \<and>
      (\<forall>i<5. \<exists>s s1. state_before stray_end i = Inr s \<and>
          open_meal (meal_start_of stray_end) i s = Inr s1 \<and>
          ls ! i = (if active_meals s1 = [] then 0 else last (active_meals s1))))"
proof -
  have ex: "create_meal_labels stray_end = Inr [1, 1, 0, 2, 2]" by code_simp
  have n: "length stray_end = 5" by (simp add: stray_end_def)
  show ?thesis using create_meal_labels_total[of stray_end] ex n by simp
qed

text \<open>
  C9. At the start of every iteration, after the push and after the label is written
  (and in the final state), \<^verbatim>\<open>active_meals\<close> increases strictly from bottom to top and
  all its elements are below \<^verbatim>\<open>meal_counter\<close>. The label of row \<open>k\<close> is 0, or positive and at
  most the number of meal-start rows among the rows \<open>0, \<dots>, k\<close>.
\<close>

theorem stack_increasing_below_counter:
  assumes k: "k \<le> length df"
  shows "\<exists>s ls. state_before df k = Inr s \<and> create_meal_labels df = Inr ls \<and>
     sorted_wrt (<) (active_meals s) \<and> (\<forall>x \<in> set (active_meals s). x < meal_counter s) \<and>
     (k < length df \<longrightarrow>
        (\<exists>s1 s2. open_meal (meal_start_of df) k s = Inr s1 \<and> write_label k s1 = Inr s2 \<and>
           sorted_wrt (<) (active_meals s1) \<and> (\<forall>x \<in> set (active_meals s1). x < meal_counter s1) \<and>
           sorted_wrt (<) (active_meals s2) \<and> (\<forall>x \<in> set (active_meals s2). x < meal_counter s2)) \<and>
        (ls ! k = 0 \<or>
         (0 < ls ! k \<and> ls ! k \<le> int (starts_before (meal_start_of df) (Suc k)))))"
proof -
  let ?ms = "meal_start_of df" and ?me = "meal_end_of df" and ?n = "length df"
  have len: "length ?ms = ?n" "length ?me = ?n" by simp_all
  obtain s where s: "scan_rows ?ms ?me ?n k = Inr s" and inv: "scan_inv ?ms ?n k s"
    using scan_rows_state[OF len k] by auto
  obtain t where t: "scan_rows ?ms ?me ?n ?n = Inr t"
    using scan_rows_state[OF len, of ?n] by auto
  have ls: "label_flags ?ms ?me ?n = Inr (labels t)" using t by (simp add: label_flags_def)
  have ok: "stack_ok s" and L: "length (labels s) = ?n" using inv by (simp_all add: scan_inv_def)
  have a: "sorted_wrt (<) (active_meals s)" "\<forall>x \<in> set (active_meals s). x < meal_counter s"
    using ok by (simp_all add: stack_ok_def)
  have b: "\<exists>s1 s2. open_meal ?ms k s = Inr s1 \<and> write_label k s1 = Inr s2 \<and>
           sorted_wrt (<) (active_meals s1) \<and> (\<forall>x \<in> set (active_meals s1). x < meal_counter s1) \<and>
           sorted_wrt (<) (active_meals s2) \<and> (\<forall>x \<in> set (active_meals s2). x < meal_counter s2)"
    if kn: "k < ?n"
  proof -
    obtain s1 where s1: "open_meal ?ms k s = Inr s1" "labels s1 = labels s"
        "active_meals s1 = (if ?ms ! k then active_meals s @ [meal_counter s] else active_meals s)"
        "meal_counter s1 = (if ?ms ! k then meal_counter s + 1 else meal_counter s)"
      using open_meal_state[of k ?ms s] kn by auto
    obtain s2 where s2: "write_label k s1 = Inr s2" "active_meals s2 = active_meals s1"
        "meal_counter s2 = meal_counter s1"
      using write_label_state[of k s1] s1(2) L kn by auto
    have "sorted_wrt (<) (active_meals s1) \<and> (\<forall>x \<in> set (active_meals s1). x < meal_counter s1)"
      using a s1(3,4) by (auto simp: sorted_wrt_append)
    then show ?thesis using s1(1) s2 by auto
  qed
  have c: "labels t ! k = 0 \<or> (0 < labels t ! k \<and> labels t ! k \<le> int (starts_before ?ms (Suc k)))"
    if kn: "k < ?n"
    using labels_bounded[OF len ls kn] by auto
  show ?thesis
    using s ls a b c by (auto simp: state_before_def create_meal_labels_def)
qed

theorem stack_increasing_below_counter_witness:
  "(2::nat) \<le> length nested_meals \<and>
   state_before nested_meals 2 = Inr \<lparr>labels = [1, 2, 0, 0], meal_counter = 3, active_meals = [1, 2]\<rparr> \<and>
   (\<exists>s ls. state_before nested_meals 2 = Inr s \<and> create_meal_labels nested_meals = Inr ls \<and>
     sorted_wrt (<) (active_meals s) \<and> (\<forall>x \<in> set (active_meals s). x < meal_counter s) \<and>
     (2 < length nested_meals \<longrightarrow>
        (\<exists>s1 s2. open_meal (meal_start_of nested_meals) 2 s = Inr s1 \<and> write_label 2 s1 = Inr s2 \<and>
           sorted_wrt (<) (active_meals s1) \<and> (\<forall>x \<in> set (active_meals s1). x < meal_counter s1) \<and>
           sorted_wrt (<) (active_meals s2) \<and> (\<forall>x \<in> set (active_meals s2). x < meal_counter s2)) \<and>
        (ls ! 2 = 0 \<or>
         (0 < ls ! 2 \<and> ls ! 2 \<le> int (starts_before (meal_start_of nested_meals) (Suc 2))))))"
proof -
  have h: "(2::nat) \<le> length nested_meals" by (simp add: nested_meals_def)
  have ex: "state_before nested_meals 2 =
      Inr \<lparr>labels = [1, 2, 0, 0], meal_counter = 3, active_meals = [1, 2]\<rparr>" by code_simp
  show ?thesis using stack_increasing_below_counter[OF h] h ex by blast
qed

text \<open>
  C10. The two flags of a row are comparisons of the one field \<^verbatim>\<open>msg_type\<close> with two
  different strings, so in no table does a row carry both.
\<close>

theorem meal_start_and_meal_end_exclusive:
  "''ANNOUNCE_MEAL'' \<noteq> ''MEAL_END'' \<and>
   list_all2 (\<lambda>st en. \<not> (st \<and> en)) (meal_start_of df) (meal_end_of df)"
  by (simp add: meal_start_of_def meal_end_of_def list_all2_conv_all_nth)

end
